theory Spec2Isabelle
  imports Complex_Main
begin

section \<open>Python values met by the archiver\<close>

text \<open>
  Every value the script handles comes out of a JSON decoder: \<open>json.loads\<close> on the text of
  a \<open>requests\<close> response, or \<open>resp.json()\<close> of an \<open>aiohttp\<close> response. A dict is kept
  as an association list in insertion order; numbers are restricted to Python's unbounded
  integers (the script never computes with a number, it only tests truthiness).
\<close>

datatype json =
    JNull
  | JBool bool
  | JNum int
  | JStr string
  | JArr "json list"
  | JObj "(string \<times> json) list"

text \<open>
  The exceptions the script can meet. \<open>SystemExit n\<close> is what \<open>sys.exit(n)\<close> raises;
  \<open>OtherException\<close> stands for every exception of a library call that no handler of the
  script names.
\<close>

datatype error =
    KeyError
  | IndexError
  | TypeError
  | ValueError
  | SystemExit nat
  | OtherException

text \<open>Truth value testing (\<open>if report:\<close>, \<open>not reports[...]\<close>).\<close>

fun truthy :: "json \<Rightarrow> bool" where
  "truthy JNull = False"
| "truthy (JBool b) = b"
| "truthy (JNum n) = (n \<noteq> 0)"
| "truthy (JStr s) = (s \<noteq> [])"
| "truthy (JArr xs) = (xs \<noteq> [])"
| "truthy (JObj kvs) = (kvs \<noteq> [])"

text \<open>
  \<open>v[k]\<close> with a string key: a dict looks the key up and raises KeyError when it is
  missing; a list or a string accepts integer indices only; everything else is not
  subscriptable.
\<close>

fun getitem :: "json \<Rightarrow> string \<Rightarrow> error + json" where
  "getitem (JObj kvs) k = (case map_of kvs k of None \<Rightarrow> Inl KeyError | Some v \<Rightarrow> Inr v)"
| "getitem v k = Inl TypeError"

text \<open>
  \<open>v[0]\<close>: the first element of a list or the first character of a string (IndexError
  when empty); a dict decoded from JSON has string keys only, so the key \<open>0\<close> is missing.
\<close>

fun getitem0 :: "json \<Rightarrow> error + json" where
  "getitem0 (JArr []) = Inl IndexError"
| "getitem0 (JArr (x # xs)) = Inr x"
| "getitem0 (JStr []) = Inl IndexError"
| "getitem0 (JStr (c # cs)) = Inr (JStr [c])"
| "getitem0 (JObj kvs) = Inl KeyError"
| "getitem0 v = Inl TypeError"

text \<open>\<open>xs[-1]\<close> on a Python list.\<close>

definition last_item :: "json list \<Rightarrow> error + json" where
  "last_item xs = (if xs = [] then Inl IndexError else Inr (last xs))"

text \<open>
  \<open>v[:]\<close> followed by \<open>list.extend\<close>: a list gives its elements, a string its characters;
  a dict rejects the slice as a key (TypeError up to Python 3.11) and the other values are
  not subscriptable.
\<close>

fun slice_all :: "json \<Rightarrow> error + json list" where
  "slice_all (JArr xs) = Inr xs"
| "slice_all (JStr s) = Inr (map (\<lambda>c. JStr [c]) s)"
| "slice_all v = Inl TypeError"

text \<open>\<open>'literal' + v\<close>: concatenation needs a string on the right.\<close>

fun str_add :: "string \<Rightarrow> json \<Rightarrow> error + string" where
  "str_add s (JStr t) = Inr (s @ t)"
| "str_add s v = Inl TypeError"

section \<open>The single-request fetcher\<close>

text \<open>
  What one call of \<open>requests.get\<close> does: it raises, or it returns a response of which the
  script reads \<open>status_code\<close> and \<open>text\<close>. The text is kept through its decoding:
  \<open>Some j\<close> when \<open>json.loads\<close> returns \<open>j\<close>, \<open>None\<close> when it raises.
\<close>

datatype reply =
    Response nat "json option"
  | GetRaised

text \<open>
  The remote service is a script of replies, consumed one per request. A computation of
  the synchronous part of the program reads replies from the front of the script and gives
  back the unread rest, with a value or the exception that ended it; \<open>None\<close> means the
  script ran out while the program was still waiting for a reply.
\<close>

type_synonym 'a io = "reply list \<Rightarrow> ((error + 'a) \<times> reply list) option"

text \<open>
  \<open>battlelogApiFetch\<close>: loop until a status other than 504 arrives. \<open>sys.exit(1)\<close> on 403
  raises SystemExit inside the \<open>try\<close>, where the \<open>except BaseException\<close> clause catches it
  and exits with 1 again, as it does for an exception of \<open>requests.get\<close>. The messages
  printed and the 5 second sleep between tries are left out.
\<close>

fun battlelogApiFetch :: "json io" where
  "battlelogApiFetch [] = None"
| "battlelogApiFetch (GetRaised # rs) = Some (Inl (SystemExit 1), rs)"
| "battlelogApiFetch (Response status body # rs) =
     (if status = 504 then battlelogApiFetch rs
      else if status = 403 then Some (Inl (SystemExit 1), rs)
      else Some (Inr (case body of Some j \<Rightarrow> j | None \<Rightarrow> JObj []), rs))"

section \<open>Sequencing\<close>

text \<open>An exception ends a chain of subscripts; a value is handed on.\<close>

fun and_then :: "error + 'a \<Rightarrow> ('a \<Rightarrow> error + 'b) \<Rightarrow> error + 'b" where
  "and_then (Inl e) f = Inl e"
| "and_then (Inr v) f = f v"

definition io_pure :: "error + 'a \<Rightarrow> 'a io" where
  "io_pure r rs = Some (r, rs)"

definition io_bind :: "'a io \<Rightarrow> ('a \<Rightarrow> 'b io) \<Rightarrow> 'b io" where
  "io_bind m f rs =
     (case m rs of
        None \<Rightarrow> None
      | Some (Inl e, rs') \<Rightarrow> Some (Inl e, rs')
      | Some (Inr v, rs') \<Rightarrow> f v rs')"

section \<open>The report index\<close>

text \<open>
  Lines 128 to 132 of \<open>main\<close>: the first page. Only a KeyError of the two lookups is
  caught, and turned into \<open>sys.exit(1)\<close>; a TypeError (the body was not a dict) and the
  SystemExit of the fetch itself go through.
\<close>

definition first_page :: "json list io" where
  "first_page rs =
     (case battlelogApiFetch rs of
        None \<Rightarrow> None
      | Some (Inl e, rs') \<Rightarrow> Some (Inl e, rs')
      | Some (Inr page, rs') \<Rightarrow>
          (case and_then (and_then (getitem page ''data'') (\<lambda>d. getitem d ''gameReports''))
                  slice_all of
             Inl e \<Rightarrow> Some (Inl (if e = KeyError then SystemExit 1 else e), rs')
           | Inr batch \<Rightarrow> Some (Inr batch, rs')))"

text \<open>
  Lines 133 to 147: the \<open>while True\<close> loop over the following pages, with the accumulated
  \<open>report_list\<close> and the counter \<open>noDataReturned\<close> as arguments. Each round builds the
  address from \<open>report_list[-1]['createdAt']\<close> before it asks for the page, so an empty
  \<open>report_list\<close> raises IndexError there. No handler surrounds the loop.
\<close>

function enumerate_more :: "json list \<Rightarrow> nat \<Rightarrow> json list io" where
  "enumerate_more report_list noDataReturned rs =
     (case and_then (last_item report_list) (\<lambda>newest. getitem newest ''createdAt'') of
        Inl e \<Rightarrow> Some (Inl e, rs)
      | Inr createdAt \<Rightarrow>
     (case battlelogApiFetch rs of
        None \<Rightarrow> None
      | Some (Inl e, rs') \<Rightarrow> Some (Inl e, rs')
      | Some (Inr reports, rs') \<Rightarrow>
     (case and_then (getitem reports ''data'') (\<lambda>d. getitem d ''gameReports'') of
        Inl e \<Rightarrow> Some (Inl e, rs')
      | Inr gameReports \<Rightarrow>
          if \<not> truthy gameReports \<and> noDataReturned \<ge> 5 then Some (Inr report_list, rs')
          else if \<not> truthy gameReports then enumerate_more report_list (noDataReturned + 1) rs'
          else (case slice_all gameReports of
                  Inl e \<Rightarrow> Some (Inl e, rs')
                | Inr batch \<Rightarrow> enumerate_more (report_list @ batch) 0 rs'))))"
  by pat_completeness auto
termination
proof -
  have shorter: "length rs' < length rs" if "battlelogApiFetch rs = Some (r, rs')"
    for rs rs' :: "reply list" and r
    using that
  proof (induction rs rule: battlelogApiFetch.induct)
    case 1
    then show ?case by simp
  next
    case (2 rs)
    then show ?case by auto
  next
    case (3 status body rs)
    then show ?case by (auto split: if_splits)
  qed
  show ?thesis
    by (relation "measure (\<lambda>(report_list, noDataReturned, rs). length rs)")
       (auto dest: shorter)
qed

declare enumerate_more.simps [simp del]

text \<open>The enumeration as \<open>main\<close> runs it: the first page, then the loop from a counter of 0.\<close>

definition enumerate_reports :: "json list io" where
  "enumerate_reports = io_bind first_page (\<lambda>report_list. enumerate_more report_list 0)"

section \<open>The metadata fetches\<close>

record metadata =
  profile_data :: json
  club_data :: json
  weapon_stats :: json
  vehicle_stats :: json
  detailed_stats :: json
  assignment_stats :: json
  award_stats :: json

text \<open>\<open>profile_data['context']['activitystream'][0]['persona'][k]\<close>.\<close>

definition persona_field :: "json \<Rightarrow> string \<Rightarrow> error + json" where
  "persona_field profile k =
     and_then (and_then (and_then (and_then (getitem profile ''context'')
       (\<lambda>c. getitem c ''activitystream'')) getitem0) (\<lambda>a. getitem a ''persona''))
       (\<lambda>p. getitem p k)"

text \<open>\<open>profile_data['context']['profileCommon']['club']['id']\<close>.\<close>

definition club_field :: "json \<Rightarrow> error + json" where
  "club_field profile =
     and_then (and_then (and_then (getitem profile ''context'')
       (\<lambda>c. getitem c ''profileCommon'')) (\<lambda>c. getitem c ''club'')) (\<lambda>c. getitem c ''id'')"

text \<open>
  Lines 94 to 147 of \<open>main\<close>: the seven metadata documents, then the report index. The
  script of replies does not depend on the address asked for, so an address is built only
  for the TypeError its concatenation raises when an identifier is not a string. The
  profile name comes from the command line and is a string.
\<close>

definition fetch_all_metadata :: "string \<Rightarrow> (metadata \<times> json list) io" where
  "fetch_all_metadata profile_name =
     io_bind battlelogApiFetch (\<lambda>profile.
     io_bind (io_pure (persona_field profile ''personaId'')) (\<lambda>profile_id.
     io_bind (io_pure (persona_field profile ''userId'')) (\<lambda>user_id.
     io_bind (io_pure (club_field profile)) (\<lambda>club_id.
     io_bind (io_pure (str_add ''/platoons/view/'' club_id)) (\<lambda>club_url.
     io_bind battlelogApiFetch (\<lambda>club.
     io_bind (io_pure (str_add ''/warsawWeaponsPopulateStats/'' profile_id)) (\<lambda>weapon_url.
     io_bind battlelogApiFetch (\<lambda>weapon.
     io_bind battlelogApiFetch (\<lambda>vehicle.
     io_bind battlelogApiFetch (\<lambda>detailed.
     io_bind (io_pure (and_then
         (str_add (''/soldier/missionsPopulateStats/'' @ profile_name @ ''/'') profile_id)
         (\<lambda>u. str_add (u @ ''/'') user_id))) (\<lambda>assignment_url.
     io_bind battlelogApiFetch (\<lambda>assignment.
     io_bind battlelogApiFetch (\<lambda>award.
     io_bind enumerate_reports (\<lambda>report_list.
     io_pure (Inr (\<lparr>profile_data = profile, club_data = club, weapon_stats = weapon,
                     vehicle_stats = vehicle, detailed_stats = detailed,
                     assignment_stats = assignment, award_stats = award\<rparr>,
                   report_list))))))))))))))))"

section \<open>The per-record fetch\<close>

text \<open>
  What one round of \<open>battlelogRetrieveReport\<close> meets: a response, of which the coroutine
  reads the status, the value of \<open>resp.json()\<close> (\<open>JNull\<close> for Python's None) and the
  text; an \<open>aiohttp\<close> ClientOSError; or any other exception of \<open>session.get\<close> or of the
  decoding, which no handler of the coroutine catches.
\<close>

datatype event =
    Http nat json string
  | ClientOSError
  | Uncaught

datatype effect = Write string | Sleep nat

datatype 'a outcome = Returned 'a | Raised error | Waiting

text \<open>
  The \<open>while True\<close> loop of \<open>battlelogRetrieveReport\<close> from a given value of \<open>attempt\<close>, over
  the events its requests will meet. \<open>attempt += 1\<close> is the first statement of every round,
  before the \<open>try\<close>. The result is what the coroutine does (\<open>Waiting\<close> when the events
  ran out inside a round), the last value of \<open>attempt\<close>, and the symbols written and
  sleeps taken, in order.
\<close>

fun retrieve_from :: "nat \<Rightarrow> event list \<Rightarrow> json outcome \<times> nat \<times> effect list" where
  "retrieve_from attempt [] = (Waiting, attempt + 1, [])"
| "retrieve_from attempt (Http status report text # evs) =
     (if status \<noteq> 200 then
        (case retrieve_from (attempt + 1) evs of
           (r, n, tr) \<Rightarrow> (r, n, Write ''X'' # Sleep 600 # tr))
      else if truthy report \<and> text \<noteq> ''null'' then
        (Returned report, attempt + 1, [Write ''o''])
      else if attempt + 1 \<ge> 6 then
        (Returned (JObj []), attempt + 1, [Write ''x''])
      else
        (case retrieve_from (attempt + 1) evs of
           (r, n, tr) \<Rightarrow> (r, n, Write ''.'' # Sleep 3 # tr)))"
| "retrieve_from attempt (ClientOSError # evs) =
     (case retrieve_from (attempt + 1) evs of (r, n, tr) \<Rightarrow> (r, n, Sleep 10 # tr))"
| "retrieve_from attempt (Uncaught # evs) = (Raised OtherException, attempt + 1, [])"

definition battlelogRetrieveReport :: "event list \<Rightarrow> json outcome \<times> nat \<times> effect list" where
  "battlelogRetrieveReport evs = retrieve_from 0 evs"

section \<open>Batches\<close>

text \<open>
  \<open>numpy.array_split(ary, n)\<close> on a one-dimensional array, after numpy's own code: no
  sections is a ValueError; otherwise the first \<open>len mod n\<close> sections hold
  \<open>len div n + 1\<close> elements and the others \<open>len div n\<close>, cut off the array in order.
\<close>

fun sections :: "nat list \<Rightarrow> 'a list \<Rightarrow> 'a list list" where
  "sections [] ary = []"
| "sections (k # ks) ary = take k ary # sections ks (drop k ary)"

definition array_split :: "'a list \<Rightarrow> nat \<Rightarrow> error + 'a list list" where
  "array_split ary n =
     (if n = 0 then Inl ValueError
      else let each = length ary div n; extras = length ary mod n
           in Inr (sections (replicate extras (each + 1) @ replicate (n - extras) each) ary))"

text \<open>
  \<open>math.ceil(len(report_list)/20)\<close>. The quotient is a float; it is the exact one, and its
  ceiling the integer one, for every length below \<open>2 ^ 48\<close>, beyond what a list can hold.
\<close>

definition batch_count :: "nat \<Rightarrow> nat" where
  "batch_count len = (len + 19) div 20"

section \<open>The concurrent fetch\<close>

text \<open>
  \<open>asyncio.gather\<close> over the tasks of one batch: an exception of a task is raised to the
  caller; otherwise the call returns once every task has, with the results in task order.
\<close>

fun raised :: "'a outcome \<Rightarrow> error option" where
  "raised (Raised e) = Some e"
| "raised r = None"

fun returned :: "'a outcome \<Rightarrow> 'a option" where
  "returned (Returned v) = Some v"
| "returned r = None"

definition gather :: "'a outcome list \<Rightarrow> 'a list outcome" where
  "gather rs =
     (case List.map_filter raised rs of
        e # es \<Rightarrow> Raised e
      | [] \<Rightarrow> if Waiting \<in> set rs then Waiting else Returned (List.map_filter returned rs))"

text \<open>The first exception of a list of evaluations done in order, or all their values.\<close>

fun in_order :: "(error + 'a) list \<Rightarrow> error + 'a list" where
  "in_order [] = Inr []"
| "in_order (Inl e # rs) = Inl e"
| "in_order (Inr v # rs) = (case in_order rs of Inl e \<Rightarrow> Inl e | Inr vs \<Rightarrow> Inr (v # vs))"

text \<open>
  Lines 161 to 171, one batch. A stub travels with the events its own requests will meet.
  The addresses are built first, from \<open>stub['gameReportId']\<close> of every stub of the batch;
  then the tasks are gathered and the truthy results kept, in order. The number that comes
  with the result counts the tasks that were awaited.
\<close>

definition fetch_batch :: "(json \<times> event list) list \<Rightarrow> json list outcome \<times> nat" where
  "fetch_batch batch =
     (case in_order (map (\<lambda>(stub, evs). getitem stub ''gameReportId'') batch) of
        Inl e \<Rightarrow> (Raised e, 0)
      | Inr ids \<Rightarrow>
          (case gather (map (\<lambda>(stub, evs). fst (battlelogRetrieveReport evs)) batch) of
             Returned reports \<Rightarrow> (Returned (filter truthy reports), length batch)
           | Raised e \<Rightarrow> (Raised e, length batch)
           | Waiting \<Rightarrow> (Waiting, length batch)))"

text \<open>Line 160: the batches one after the other, \<open>battlelog_reports\<close> growing.\<close>

fun fetch_batches ::
  "(json \<times> event list) list list \<Rightarrow> json list \<Rightarrow> nat \<Rightarrow> json list outcome \<times> nat" where
  "fetch_batches [] battlelog_reports awaited = (Returned battlelog_reports, awaited)"
| "fetch_batches (batch # batches) battlelog_reports awaited =
     (case fetch_batch batch of
        (Returned reports, n) \<Rightarrow>
          fetch_batches batches (battlelog_reports @ reports) (awaited + n)
      | (Raised e, n) \<Rightarrow> (Raised e, awaited + n)
      | (Waiting, n) \<Rightarrow> (Waiting, awaited + n))"

section \<open>The archive on disk\<close>

text \<open>
  A file holds \<open>str(v)\<close> of a value \<open>v\<close>, kept here as the value itself: a decoded JSON
  value, or the list of numpy arrays that \<open>report_list\<close> is bound to after line 158. The
  file of a report is named after \<open>str(report['id'])\<close>, kept as the value of the id.
\<close>

datatype content = Str json | Str_arrays "json list list"

datatype path = File string | Report_file json

text \<open>Lines 187 and 188: one file per report, until a report has no \<open>'id'\<close>.\<close>

fun write_reports ::
  "json list \<Rightarrow> (path \<times> content) list \<Rightarrow> unit outcome \<times> (path \<times> content) list" where
  "write_reports [] files = (Returned (), files)"
| "write_reports (report # reports) files =
     (case getitem report ''id'' of
        Inl e \<Rightarrow> (Raised (SystemExit 1), files)
      | Inr ident \<Rightarrow> write_reports reports (files @ [(Report_file ident, Str report)]))"

text \<open>
  Lines 175 to 194. Every exception inside the \<open>try\<close> ends the run with \<open>sys.exit(1)\<close>;
  what was written before stays. \<open>disk_ok\<close> is false when the file system refuses the
  first call, \<open>os.makedirs\<close>.
\<close>

definition write_archive ::
  "bool \<Rightarrow> metadata \<Rightarrow> json list list \<Rightarrow> json list
     \<Rightarrow> unit outcome \<times> (path \<times> content) list" where
  "write_archive disk_ok meta report_list battlelog_reports =
     (if \<not> disk_ok then (Raised (SystemExit 1), [])
      else write_reports battlelog_reports
        [(File ''profile_data.json'', Str (profile_data meta)),
         (File ''club_data.json'', Str (club_data meta)),
         (File ''weapon_stats.json'', Str (weapon_stats meta)),
         (File ''vehicle_stats.json'', Str (vehicle_stats meta)),
         (File ''detailed_stats.json'', Str (detailed_stats meta)),
         (File ''assignment_stats.json'', Str (assignment_stats meta)),
         (File ''award_stats.json'', Str (award_stats meta)),
         (File ''report_list.json'', Str_arrays report_list)])"

section \<open>The whole run\<close>

text \<open>
  How a run ends, the replies it left unread, the number of per-record tasks it awaited
  and the files it wrote.
\<close>

record run =
  ending :: "unit outcome"
  unread :: "reply list"
  awaited :: nat
  files :: "(path \<times> content) list"

text \<open>
  \<open>main\<close>, for a profile name, the script of replies to the synchronous requests, the
  events met by the task of the stub at each position of the index, and the state of the
  disk. The cookie file of lines 87 and 88 is taken as loaded. An uncaught exception ends
  the run as \<open>sys.exit\<close> does, with a non-zero status.
  Line 158 rebinds \<open>report_list\<close> to the batches; the write step uses that binding.
\<close>

definition main :: "string \<Rightarrow> reply list \<Rightarrow> (nat \<Rightarrow> event list) \<Rightarrow> bool \<Rightarrow> run" where
  "main profile_name script net disk_ok =
     (case fetch_all_metadata profile_name script of
        None \<Rightarrow> \<lparr>ending = Waiting, unread = [], awaited = 0, files = []\<rparr>
      | Some (Inl e, rest) \<Rightarrow> \<lparr>ending = Raised e, unread = rest, awaited = 0, files = []\<rparr>
      | Some (Inr (meta, report_list), rest) \<Rightarrow>
     (case array_split (zip report_list (map net [0..<length report_list]))
             (batch_count (length report_list)) of
        Inl e \<Rightarrow> \<lparr>ending = Raised e, unread = rest, awaited = 0, files = []\<rparr>
      | Inr batches \<Rightarrow>
     (case fetch_batches batches [] 0 of
        (Raised e, n) \<Rightarrow> \<lparr>ending = Raised e, unread = rest, awaited = n, files = []\<rparr>
      | (Waiting, n) \<Rightarrow> \<lparr>ending = Waiting, unread = rest, awaited = n, files = []\<rparr>
      | (Returned battlelog_reports, n) \<Rightarrow>
          (case write_archive disk_ok meta (map (map fst) batches) battlelog_reports of
             (how, written) \<Rightarrow>
               \<lparr>ending = how, unread = rest, awaited = n, files = written\<rparr>))))"

section \<open>Vocabulary of the statements\<close>

text \<open>A reply with status 200 whose body decodes to the JSON value given.\<close>

definition ok :: "json \<Rightarrow> reply" where
  "ok body = Response 200 (Some body)"

text \<open>A page of the report index as the service sends it: \<open>{'data': {'gameReports': [...]}}\<close>.\<close>

definition page :: "json list \<Rightarrow> reply" where
  "page batch = ok (JObj [(''data'', JObj [(''gameReports'', JArr batch)])])"

text \<open>A stub that is a dict with a \<open>createdAt\<close>, and one with a \<open>gameReportId\<close>.\<close>

definition dated :: "json \<Rightarrow> bool" where
  "dated stub = (case getitem stub ''createdAt'' of Inl e \<Rightarrow> False | Inr t \<Rightarrow> True)"

definition identified :: "json \<Rightarrow> bool" where
  "identified stub = (case getitem stub ''gameReportId'' of Inl e \<Rightarrow> False | Inr t \<Rightarrow> True)"

text \<open>
  \<open>empty_run k seen pages\<close>: the pages, coming after \<open>seen\<close> empty pages in a row, hold \<open>k\<close>
  empty pages in a row somewhere.
\<close>

fun empty_run :: "nat \<Rightarrow> nat \<Rightarrow> 'a list list \<Rightarrow> bool" where
  "empty_run k seen [] = (k \<le> seen)"
| "empty_run k seen (p # ps) = (k \<le> seen \<or> empty_run k (if p = [] then seen + 1 else 0) ps)"

text \<open>
  An event of the per-record fetch that is a status 200 with a null or empty body (the
  test \<open>report and text != 'null'\<close> fails), and one that is a status other than 200.
\<close>

definition blank :: "event \<Rightarrow> bool" where
  "blank ev = (case ev of Http status report text \<Rightarrow>
                 status = 200 \<and> \<not> (truthy report \<and> text \<noteq> ''null'') | _ \<Rightarrow> False)"

definition refused :: "event \<Rightarrow> bool" where
  "refused ev = (case ev of Http status report text \<Rightarrow> status \<noteq> 200 | _ \<Rightarrow> False)"

text \<open>
  A task is a stub with the events its fetch will meet. Its answer is the value its
  coroutine returns; it is sound when the stub has a \<open>gameReportId\<close> and the coroutine
  returns.
\<close>

definition answer :: "json \<times> event list \<Rightarrow> json" where
  "answer task = (case fst (battlelogRetrieveReport (snd task)) of
                    Returned v \<Rightarrow> v | Raised e \<Rightarrow> JNull | Waiting \<Rightarrow> JNull)"

definition returns :: "json \<times> event list \<Rightarrow> bool" where
  "returns task = (case fst (battlelogRetrieveReport (snd task)) of
                    Returned v \<Rightarrow> True | Raised e \<Rightarrow> False | Waiting \<Rightarrow> False)"

definition sound :: "json \<times> event list \<Rightarrow> bool" where
  "sound task = (identified (fst task) \<and> returns task)"

text \<open>The first response of a run: a profile with a persona and a club.\<close>

definition profile :: "string \<Rightarrow> string \<Rightarrow> string \<Rightarrow> json" where
  "profile profile_id user_id club_id =
     JObj [(''context'', JObj
       [(''activitystream'', JArr [JObj [(''persona'',
            JObj [(''personaId'', JStr profile_id), (''userId'', JStr user_id)])]]),
        (''profileCommon'', JObj [(''club'', JObj [(''id'', JStr club_id)])])])]"

text \<open>
  A computation is steady at a script when more replies behind the script change nothing
  for a run that ended within it, and when a run still waiting at its end is ended by a
  403 as the next reply, with \<open>sys.exit(1)\<close> and everything behind the 403 unread.
\<close>

definition steady_at :: "'a io \<Rightarrow> reply list \<Rightarrow> bool" where
  "steady_at m rs \<longleftrightarrow>
     (\<forall>r rs' t. m rs = Some (r, rs') \<longrightarrow> m (rs @ t) = Some (r, rs' @ t)) \<and>
     (\<forall>body t. m rs = None \<longrightarrow>
        m (rs @ Response 403 body # t) = Some (Inl (SystemExit 1), t))"

definition steady :: "'a io \<Rightarrow> bool" where
  "steady m \<longleftrightarrow> (\<forall>rs. steady_at m rs)"

section \<open>Properties of the single-request fetcher\<close>

text \<open>
  Claim C10. A response whose status is neither 504 nor 403 (500 and 429 included) ends the
  fetch at once: the value is the decoded body, or the empty dict when the body does not
  decode, exactly one reply has been read, and the result is the one a status 200 with the
  same body gives.
\<close>

theorem battlelogApiFetch_other_status:
  "status \<noteq> 504 \<Longrightarrow> status \<noteq> 403 \<Longrightarrow>
   battlelogApiFetch (Response status body # rs) =
     Some (Inr (case body of Some j \<Rightarrow> j | None \<Rightarrow> JObj []), rs)
   \<and> battlelogApiFetch (Response status body # rs) =
     battlelogApiFetch (Response 200 body # rs)"
  by simp

theorem battlelogApiFetch_other_status_witness:
  "(500::nat) \<noteq> 504 \<and> (500::nat) \<noteq> 403
   \<and> battlelogApiFetch (Response 500 None # [Response 200 (Some JNull)]) =
       Some (Inr (JObj []), [Response 200 (Some JNull)])
   \<and> battlelogApiFetch (Response 500 None # [Response 200 (Some JNull)]) =
       battlelogApiFetch (Response 200 None # [Response 200 (Some JNull)])"
  using battlelogApiFetch_other_status [of 500 None "[Response 200 (Some JNull)]"] by simp

section \<open>Properties of the report index\<close>

lemma fetch_page: "battlelogApiFetch (page batch # rs) =
   Some (Inr (JObj [(''data'', JObj [(''gameReports'', JArr batch)])]), rs)"
  by (simp add: page_def ok_def)

lemma cursor_ok:
  "report_list \<noteq> [] \<Longrightarrow> dated (last report_list) \<Longrightarrow>
   \<exists>t. and_then (last_item report_list) (\<lambda>newest. getitem newest ''createdAt'') = Inr t"
  by (auto simp: last_item_def dated_def split: sum.splits)

lemma more_nil:
  "report_list \<noteq> [] \<Longrightarrow> dated (last report_list) \<Longrightarrow> enumerate_more report_list n [] = None"
  using cursor_ok [of report_list] by (subst enumerate_more.simps) auto

lemma more_empty:
  "report_list \<noteq> [] \<Longrightarrow> dated (last report_list) \<Longrightarrow>
   enumerate_more report_list n (page [] # rs) =
     (if 5 \<le> n then Some (Inr report_list, rs) else enumerate_more report_list (n + 1) rs)"
  using cursor_ok [of report_list]
  by (subst enumerate_more.simps) (auto simp: fetch_page)

lemma more_batch:
  "report_list \<noteq> [] \<Longrightarrow> dated (last report_list) \<Longrightarrow> batch \<noteq> [] \<Longrightarrow>
   enumerate_more report_list n (page batch # rs) = enumerate_more (report_list @ batch) 0 rs"
  using cursor_ok [of report_list]
  by (subst enumerate_more.simps) (auto simp: fetch_page)

lemma empty_run_seen: "k \<le> seen \<Longrightarrow> empty_run k seen ps"
  by (cases ps) auto

lemma more_waits:
  "report_list \<noteq> [] \<Longrightarrow> \<forall>stub \<in> set (report_list @ concat pages). dated stub \<Longrightarrow>
   \<not> empty_run 6 n pages \<Longrightarrow> enumerate_more report_list n (map page pages) = None"
proof (induction pages arbitrary: report_list n)
  case Nil
  then show ?case by (simp add: more_nil)
next
  case (Cons p pages)
  have d: "dated (last report_list)" using Cons.prems(1,2) by simp
  show ?case
  proof (cases "p = []")
    case True
    with Cons.prems have r: "\<not> empty_run 6 (n + 1) pages" by simp
    then have "\<not> 6 \<le> n + 1" using empty_run_seen by blast
    then have n: "n < 5" by simp
    have "enumerate_more report_list (n + 1) (map page pages) = None"
      using Cons.IH [OF Cons.prems(1) _ r] Cons.prems(2) True by simp
    then show ?thesis using True n d Cons.prems(1) by (simp add: more_empty)
  next
    case False
    with Cons.prems have r: "\<not> empty_run 6 0 pages" by simp
    have "enumerate_more (report_list @ p) 0 (map page pages) = None"
      using Cons.IH [of "report_list @ p" 0] Cons.prems(1,2) r by simp
    then show ?thesis using False d Cons.prems(1) by (simp add: more_batch)
  qed
qed

lemma more_six:
  "report_list \<noteq> [] \<Longrightarrow> dated (last report_list) \<Longrightarrow> n \<le> 5 \<Longrightarrow>
   enumerate_more report_list n (map page (replicate (6 - n) []) @ rest) = Some (Inr report_list, rest)"
proof (induction "5 - n" arbitrary: n)
  case 0
  then have "n = 5" by simp
  then show ?case using 0 by (simp add: more_empty)
next
  case (Suc d)
  then have n: "n < 5" and e: "6 - n = Suc (6 - (n + 1))" by simp_all
  have "enumerate_more report_list (n + 1) (map page (replicate (6 - (n + 1)) []) @ rest)
          = Some (Inr report_list, rest)"
    using Suc.hyps(1) [of "n + 1"] Suc.hyps(2) Suc.prems by simp
  then show ?case using n Suc.prems unfolding e by (simp add: more_empty)
qed

lemma more_stops:
  "report_list \<noteq> [] \<Longrightarrow> \<forall>stub \<in> set (report_list @ concat pages). dated stub \<Longrightarrow>
   \<not> empty_run 6 n (pages @ replicate 5 []) \<Longrightarrow>
   enumerate_more report_list n (map page (pages @ replicate 6 []) @ rest) =
     Some (Inr (report_list @ concat pages), rest)"
proof (induction pages arbitrary: report_list n)
  case Nil
  have "empty_run 6 n (replicate 5 [])" if "0 < n"
    using that by (simp add: numeral_eq_Suc) 
  with Nil have "n = 0" by auto
  then show ?case using more_six [of report_list 0 rest] Nil by simp
next
  case (Cons p pages)
  have d: "dated (last report_list)" using Cons.prems(1,2) by simp
  show ?case
  proof (cases "p = []")
    case True
    with Cons.prems have r: "\<not> empty_run 6 (n + 1) (pages @ replicate 5 [])" by simp
    then have "\<not> 6 \<le> n + 1" using empty_run_seen by blast
    then have n: "n < 5" by simp
    have "enumerate_more report_list (n + 1) (map page (pages @ replicate 6 []) @ rest)
            = Some (Inr (report_list @ concat pages), rest)"
      using Cons.IH [OF Cons.prems(1) _ r] Cons.prems(2) True by simp
    then show ?thesis using True n d Cons.prems(1) by (simp add: more_empty)
  next
    case False
    with Cons.prems have r: "\<not> empty_run 6 0 (pages @ replicate 5 [])" by simp
    have "enumerate_more (report_list @ p) 0 (map page (pages @ replicate 6 []) @ rest)
            = Some (Inr ((report_list @ p) @ concat pages), rest)"
      using Cons.IH [of "report_list @ p" 0] Cons.prems(1,2) r by simp
    then show ?thesis using False d Cons.prems(1) by (simp add: more_batch)
  qed
qed


text \<open>What \<open>empty_run\<close> computes: the pages hold \<open>k\<close> empty pages in a row.\<close>

lemma replicate_shift: "replicate c x @ x # ps = replicate (Suc c) x @ ps"
  by (induction c) auto

lemma empty_run_holds:
  "empty_run k c ps \<Longrightarrow> \<exists>a b. replicate c [] @ ps = a @ replicate k [] @ b"
proof (induction ps arbitrary: c)
  case Nil
  then have "replicate c [] = replicate (c - k) [] @ replicate k [] @ ([] :: 'a list list)"
    by (simp add: replicate_add [symmetric])
  then show ?case by (metis append_Nil2)
next
  case (Cons p ps)
  show ?case
  proof (cases "k \<le> c")
    case True
    then have "replicate c [] @ p # ps = replicate (c - k) [] @ replicate k [] @ p # ps"
      by (simp add: replicate_add [symmetric])
    then show ?thesis by blast
  next
    case False
    show ?thesis
    proof (cases "p = []")
      case True
      with False Cons.prems have "empty_run k (Suc c) ps" by simp
      then obtain a b where "replicate (Suc c) [] @ ps = a @ replicate k [] @ b"
        using Cons.IH by blast
      then show ?thesis using True by (metis replicate_shift)
    next
      case nonempty: False
      with False Cons.prems have "empty_run k 0 ps" by simp
      then obtain a b where "ps = a @ replicate k [] @ b" using Cons.IH [of 0] by auto
      then have "replicate c [] @ p # ps = (replicate c [] @ p # a) @ replicate k [] @ b" by simp
      then show ?thesis by blast
    qed
  qed
qed

lemma holds_empty_run:
  "replicate c [] @ ps = a @ replicate k [] @ b \<Longrightarrow> empty_run k c ps"
proof (induction ps arbitrary: c a)
  case Nil
  then have "length (replicate c ([] :: 'a list)) = length (a @ replicate k [] @ b)" by simp
  then show ?case by simp
next
  case (Cons p ps)
  show ?case
  proof (cases "k \<le> c")
    case True
    then show ?thesis by simp
  next
    case False
    show ?thesis
    proof (cases "p = []")
      case True
      then have "replicate (Suc c) [] @ ps = a @ replicate k [] @ b"
        using Cons.prems by (simp only: replicate_shift [symmetric])
      then show ?thesis using True Cons.IH by simp
    next
      case nonempty: False
      have at: "(replicate c [] @ p # ps) ! c = p" by (simp add: nth_append)
      have "c < length a"
      proof (rule ccontr)
        assume "\<not> c < length a"
        then have "length a \<le> c" and "c - length a < k" using False by simp_all
        then have "(a @ replicate k [] @ b) ! c = []" by (simp add: nth_append)
        then show False using at nonempty Cons.prems by simp
      qed
      then have inside: "Suc c \<le> length a" by simp
      have "drop (Suc c) (replicate c [] @ p # ps) = ps" by simp
      moreover have "drop (Suc c) (a @ replicate k [] @ b) = drop (Suc c) a @ replicate k [] @ b"
        using inside by simp
      ultimately have "replicate 0 [] @ ps = drop (Suc c) a @ replicate k [] @ b"
        using Cons.prems by simp
      then have "empty_run k 0 ps" by (rule Cons.IH)
      then show ?thesis using nonempty by simp
    qed
  qed
qed

lemma empty_run_iff: "empty_run k 0 ps \<longleftrightarrow> (\<exists>a b. ps = a @ replicate k [] @ b)"
  using empty_run_holds [of k 0 ps] holds_empty_run [of 0 ps _ k] by auto

lemma first_page_page: "first_page (page batch # rs) = Some (Inr batch, rs)"
  by (simp add: first_page_def fetch_page)

text \<open>
  Claim C1, as the code has it. The counter is tested before it is incremented, so the
  loop leaves on the sixth empty page in a row, not the fifth. For a non-empty first page
  and stubs that carry a \<open>createdAt\<close>: as long as the later pages hold no six empty
  pages in a row the enumeration is still asking for pages; and when six empty pages
  follow pages whose only run of five empty pages is the one they complete, it returns
  there, with the stubs of all pages in order, and reads nothing further. A non-empty
  page in between starts the count again.
\<close>

theorem enumerate_reports_six_empty_pages:
  assumes "first \<noteq> []" and "\<forall>stub \<in> set (first @ concat later). dated stub"
  shows "(\<not> empty_run 6 0 later \<longrightarrow> enumerate_reports (map page (first # later)) = None)
       \<and> (\<not> empty_run 6 0 (later @ replicate 5 []) \<longrightarrow>
            enumerate_reports (map page (first # later @ replicate 6 []) @ rest) =
              Some (Inr (first @ concat later), rest))"
  using assms more_waits [of first later 0] more_stops [of first later 0 rest]
  by (simp add: enumerate_reports_def io_bind_def first_page_page)

theorem enumerate_reports_six_empty_pages_witness:
  "enumerate_reports (map page
      [[JObj [(''createdAt'', JNum 9)]], [], [], [], [], [JObj [(''createdAt'', JNum 7)]]]) = None
   \<and> enumerate_reports (map page
      [[JObj [(''createdAt'', JNum 9)]], [], [], [], [], [JObj [(''createdAt'', JNum 7)]],
       [], [], [], [], [], []] @ [GetRaised]) =
     Some (Inr [JObj [(''createdAt'', JNum 9)], JObj [(''createdAt'', JNum 7)]], [GetRaised])"
  using enumerate_reports_six_empty_pages
    [of "[JObj [(''createdAt'', JNum 9)]]" "[[], [], [], [], [JObj [(''createdAt'', JNum 7)]]]"
        "[GetRaised]"]
  by (simp add: dated_def numeral_eq_Suc)

text \<open>
  The sequence of the specification, after a first page: four empty pages, a page with a
  stub, five empty pages. The enumeration has not returned.
\<close>

theorem five_empty_pages_counterexample:
  "enumerate_reports (map page
      [[JObj [(''createdAt'', JNum 9)]], [], [], [], [], [JObj [(''createdAt'', JNum 7)]],
       [], [], [], [], []]) = None"
  by (simp add: enumerate_reports_def io_bind_def first_page_page more_batch more_empty more_nil dated_def)

section \<open>Properties of the per-record fetch\<close>

lemma retrieve_blank:
  "blank ev \<Longrightarrow> retrieve_from attempt (ev # evs) =
     (if 6 \<le> attempt + 1 then (Returned (JObj []), attempt + 1, [Write ''x''])
      else (case retrieve_from (attempt + 1) evs of
              (r, n, tr) \<Rightarrow> (r, n, Write ''.'' # Sleep 3 # tr)))"
  by (cases ev) (auto simp: blank_def)

lemma retrieve_refused:
  "refused ev \<Longrightarrow> retrieve_from attempt (ev # evs) =
     (case retrieve_from (attempt + 1) evs of
        (r, n, tr) \<Rightarrow> (r, n, Write ''X'' # Sleep 600 # tr))"
  by (cases ev) (auto simp: refused_def)

lemma retrieve_all_blank:
  "list_all blank evs \<Longrightarrow> attempt + length evs = 6 \<Longrightarrow> evs \<noteq> [] \<Longrightarrow>
   retrieve_from attempt (evs @ rest) =
     (Returned (JObj []), 6,
      concat (replicate (length evs - 1) [Write ''.'', Sleep 3]) @ [Write ''x''])"
proof (induction evs arbitrary: attempt)
  case Nil
  then show ?case by simp
next
  case (Cons ev evs)
  show ?case
  proof (cases "evs = []")
    case True
    with Cons.prems show ?thesis by (simp add: retrieve_blank)
  next
    case False
    then have "retrieve_from (attempt + 1) (evs @ rest) =
      (Returned (JObj []), 6, concat (replicate (length evs - 1) [Write ''.'', Sleep 3]) @ [Write ''x''])"
      using Cons.IH [of "attempt + 1"] Cons.prems by simp
    moreover have "\<not> 6 \<le> attempt + 1" using Cons.prems False by (cases evs) auto
    moreover have "length evs = Suc (length evs - 1)" using False by (cases evs) auto
    ultimately show ?thesis using Cons.prems(1)
      by (simp add: retrieve_blank del: retrieve_from.simps) (metis replicate_Suc concat.simps(2) append_Cons append_Nil)
  qed
qed

lemma retrieve_all_refused:
  "list_all refused evs \<Longrightarrow> truthy report \<Longrightarrow> text \<noteq> ''null'' \<Longrightarrow>
   retrieve_from attempt (evs @ Http 200 report text # rest) =
     (Returned report, attempt + length evs + 1,
      concat (replicate (length evs) [Write ''X'', Sleep 600]) @ [Write ''o''])"
proof (induction evs arbitrary: attempt)
  case Nil
  then show ?case by simp
next
  case (Cons ev evs)
  then show ?case by (simp add: retrieve_refused del: retrieve_from.simps)
qed

lemma retrieve_os_errors:
  "blank ev \<Longrightarrow> retrieve_from attempt (replicate k ClientOSError @ ev # rest) =
     (if 6 \<le> attempt + k + 1
      then (Returned (JObj []), attempt + k + 1, replicate k (Sleep 10) @ [Write ''x''])
      else (case retrieve_from (attempt + k + 1) rest of
              (r, n, tr) \<Rightarrow> (r, n, replicate k (Sleep 10) @ Write ''.'' # Sleep 3 # tr)))"
proof (induction k arbitrary: attempt)
  case 0
  then show ?case by (simp add: retrieve_blank del: retrieve_from.simps)
next
  case (Suc k)
  show ?case using Suc.IH [OF Suc.prems, of "attempt + 1"]
    by (simp split: prod.splits)
qed

text \<open>
  Claim C5. Any number of responses with a status other than 200, each answered by the
  symbol \<open>X\<close> and a sleep of 600 seconds (against 3 after an empty body), followed by a
  status 200 with a truthy body whose text is not \<open>null\<close>: the coroutine returns that
  body, however many rounds went before.
\<close>

theorem refused_then_success:
  "list_all refused evs \<Longrightarrow> truthy report \<Longrightarrow> text \<noteq> ''null'' \<Longrightarrow>
   battlelogRetrieveReport (evs @ Http 200 report text # rest) =
     (Returned report, length evs + 1,
      concat (replicate (length evs) [Write ''X'', Sleep 600]) @ [Write ''o''])"
  unfolding battlelogRetrieveReport_def by (simp add: retrieve_all_refused)

theorem refused_then_success_witness:
  "battlelogRetrieveReport
     ([Http 429 JNull [], Http 503 JNull [], Http 403 JNull [], Http 500 JNull [],
       Http 502 JNull [], Http 504 JNull [], Http 404 JNull []]
      @ Http 200 (JObj [(''id'', JNum 5)]) ''body'' # []) =
     (Returned (JObj [(''id'', JNum 5)]), 8,
      [Write ''X'', Sleep 600, Write ''X'', Sleep 600, Write ''X'', Sleep 600,
       Write ''X'', Sleep 600, Write ''X'', Sleep 600, Write ''X'', Sleep 600,
       Write ''X'', Sleep 600, Write ''o''])"
  using refused_then_success
    [of "[Http 429 JNull [], Http 503 JNull [], Http 403 JNull [], Http 500 JNull [],
          Http 502 JNull [], Http 504 JNull [], Http 404 JNull []]"
        "JObj [(''id'', JNum 5)]" "''body''" "[]"]
  by (simp add: refused_def numeral_eq_Suc)

text \<open>
  Claim C4, as the code has it. \<open>attempt += 1\<close> stands before the \<open>try\<close>, so a round that
  ends in a ClientOSError is an attempt like any other: after \<open>k\<close> of them, each followed
  by a sleep of 10 seconds, an empty body is judged as attempt \<open>k + 1\<close>. From five errors
  on the first empty body ends the fetch with the empty dict; below, the coroutine sleeps
  3 seconds and goes on from attempt \<open>k + 1\<close>.
\<close>

theorem transport_errors_count:
  "blank ev \<Longrightarrow>
   battlelogRetrieveReport (replicate k ClientOSError @ ev # rest) =
     (if 5 \<le> k
      then (Returned (JObj []), k + 1, replicate k (Sleep 10) @ [Write ''x''])
      else (case retrieve_from (k + 1) rest of
              (r, n, tr) \<Rightarrow> (r, n, replicate k (Sleep 10) @ Write ''.'' # Sleep 3 # tr)))"
  unfolding battlelogRetrieveReport_def using retrieve_os_errors [of ev 0 k rest] by simp

theorem transport_errors_count_witness:
  "battlelogRetrieveReport (replicate 5 ClientOSError @ Http 200 JNull ''null'' # []) =
     (Returned (JObj []), 6, replicate 5 (Sleep 10) @ [Write ''x''])"
  using transport_errors_count [of "Http 200 JNull ''null''" 5 "[]"]
  by (simp add: blank_def)

text \<open>
  The same two responses, an empty body and then a report, with and without five
  transport errors before them: with the errors the empty body is the sixth attempt and
  the record is given up; without them the report is fetched.
\<close>

theorem transport_errors_counterexample:
  "fst (battlelogRetrieveReport
          ([ClientOSError, ClientOSError, ClientOSError, ClientOSError, ClientOSError]
           @ [Http 200 JNull ''null'', Http 200 (JObj [(''id'', JNum 5)]) ''body'']))
     = Returned (JObj [])
   \<and> fst (battlelogRetrieveReport
          [Http 200 JNull ''null'', Http 200 (JObj [(''id'', JNum 5)]) ''body''])
     = Returned (JObj [(''id'', JNum 5)])"
  by (simp add: battlelogRetrieveReport_def)

section \<open>Properties of the batches\<close>

lemma sections_length: "length (sections ks xs) = length ks"
  by (induction ks arbitrary: xs) auto

lemma sections_concat: "length xs \<le> sum_list ks \<Longrightarrow> concat (sections ks xs) = xs"
  by (induction ks arbitrary: xs) auto

lemma sections_bound:
  "\<forall>k \<in> set ks. k \<le> m \<Longrightarrow> \<forall>b \<in> set (sections ks xs). length b \<le> m"
  by (induction ks arbitrary: xs) auto

lemma sizes_sum:
  fixes len n :: nat
  shows "sum_list (replicate (len mod n) (len div n + 1) @ replicate (n - len mod n) (len div n)) = len"
proof (cases "n = 0")
  case True
  then show ?thesis by (simp add: sum_list_replicate)
next
  case False
  then have le: "len mod n \<le> n" by (simp add: less_imp_le)
  have "len mod n * (len div n + 1) + (n - len mod n) * (len div n)
        = len mod n + (len mod n + (n - len mod n)) * (len div n)"
    by (simp only: add_mult_distrib add_mult_distrib2 mult_1_right)
  also have "\<dots> = len mod n + n * (len div n)" using le by simp
  also have "\<dots> = len" by simp
  finally show ?thesis using False by (simp add: sum_list_replicate)
qed


lemma array_split_sections:
  assumes "0 < n" and "array_split xs n = Inr bs"
  shows "length bs = n" and "concat bs = xs"
proof -
  let ?ks = "replicate (length xs mod n) (length xs div n + 1)
             @ replicate (n - length xs mod n) (length xs div n)"
  have bs: "bs = sections ?ks xs" using assms by (simp add: array_split_def Let_def)
  have le: "length xs mod n \<le> n" using assms(1) by (simp add: less_imp_le)
  show "length bs = n" using le by (simp add: bs sections_length)
  have "sum_list ?ks = length xs" by (rule sizes_sum)
  then show "concat bs = xs" unfolding bs by (simp only: sections_concat order_refl)
qed

lemma batch_count_pos: "0 < len \<Longrightarrow> 0 < batch_count len"
  by (simp add: batch_count_def)


lemma ceiling_twentieth: "- (- k div 20) = (k + 19) div (20::int)"
  by linarith

lemma batch_count_ceiling: "int (batch_count len) = \<lceil>real len / 20\<rceil>"
proof -
  have "\<lceil>real len / 20\<rceil> = - (- int len div 20)"
    using ceiling_divide_eq_div [of "int len" 20, where ?'a = real] by simp
  also have "\<dots> = (int len + 19) div 20" by (rule ceiling_twentieth)
  also have "\<dots> = int ((len + 19) div 20)" by (simp add: zdiv_int)
  finally show ?thesis unfolding batch_count_def by simp
qed

lemma array_split_bound:
  assumes "0 < length xs" and "array_split xs (batch_count (length xs)) = Inr bs"
  shows "\<forall>b \<in> set bs. length b \<le> 20"
proof -
  define n where "n = batch_count (length xs)"
  define each where "each = length xs div n"
  define extras where "extras = length xs mod n"
  define ks where "ks = replicate extras (each + 1) @ replicate (n - extras) each"
  have n: "0 < n" unfolding n_def using assms(1) by (rule batch_count_pos)
  have bs: "bs = sections ks xs"
    using assms(2) n by (simp add: array_split_def Let_def n_def each_def extras_def ks_def)
  have cover: "length xs \<le> 20 * n" by (simp add: n_def batch_count_def)
  have whole: "each * n + extras = length xs" by (simp add: each_def extras_def)
  have each: "each \<le> 20"
  proof (rule ccontr)
    assume "\<not> each \<le> 20"
    then have "21 \<le> each" by simp
    then have "21 * n \<le> each * n" by (rule mult_le_mono1)
    then show False using whole cover n by linarith
  qed
  have extra: "each + 1 \<le> 20" if "0 < extras"
  proof (rule ccontr)
    assume "\<not> each + 1 \<le> 20"
    then have "20 \<le> each" by simp
    then have "20 * n \<le> each * n" by (rule mult_le_mono1)
    then show False using that whole cover by linarith
  qed
  have "\<forall>k \<in> set ks. k \<le> 20"
  proof
    fix k assume "k \<in> set ks"
    then have "(k = each + 1 \<and> 0 < extras) \<or> k = each"
      by (auto simp: ks_def)
    then show "k \<le> 20" using each extra by auto
  qed
  then show ?thesis unfolding bs by (rule sections_bound)
qed

text \<open>
  Claim C7. For a non-empty list, line 158 makes \<open>ceil(N / 20)\<close> batches; put end to end
  they are the list again, so every stub is in exactly one of them, at its place; and no
  batch holds more than 20 stubs.
\<close>

theorem array_split_batches:
  "xs \<noteq> [] \<Longrightarrow>
   \<exists>bs. array_split xs (batch_count (length xs)) = Inr bs
      \<and> int (length bs) = \<lceil>real (length xs) / 20\<rceil>
      \<and> concat bs = xs
      \<and> (\<forall>b \<in> set bs. length b \<le> 20)"
proof -
  assume xs: "xs \<noteq> []"
  then have n: "0 < batch_count (length xs)" by (simp add: batch_count_pos)
  then obtain bs where bs: "array_split xs (batch_count (length xs)) = Inr bs"
    by (simp add: array_split_def Let_def)
  have "length bs = batch_count (length xs)" and "concat bs = xs"
    using array_split_sections [OF n bs] by simp_all
  moreover have "\<forall>b \<in> set bs. length b \<le> 20"
    using array_split_bound [OF _ bs] xs by simp
  ultimately show ?thesis using bs batch_count_ceiling [of "length xs"] by simp
qed

theorem array_split_batches_witness:
  "\<exists>bs. array_split [0..<25] (batch_count (length [0..<25])) = Inr bs
      \<and> int (length bs) = \<lceil>real (length [0..<25]) / 20\<rceil>
      \<and> concat bs = [0..<25]
      \<and> (\<forall>b \<in> set bs. length b \<le> 20)"
  by (rule array_split_batches) simp

section \<open>Properties of the concurrent fetch\<close>

lemma in_order_Inr: "(\<exists>vs. in_order rs = Inr vs) \<longleftrightarrow> (\<forall>r \<in> set rs. \<exists>v. r = Inr v)"
proof (induction rs)
  case Nil
  then show ?case by simp
next
  case (Cons r rs)
  then show ?case by (cases r) (auto split: sum.splits)
qed

lemma gather_Returned: "gather (map Returned vs) = Returned vs"
proof -
  have "List.map_filter raised (map Returned vs) = []"
    by (induction vs) (simp_all add: map_filter_simps)
  moreover have "List.map_filter returned (map Returned vs) = vs"
    by (induction vs) (simp_all add: map_filter_simps)
  moreover have "Waiting \<notin> set (map Returned vs)" by auto
  ultimately show ?thesis by (simp add: gather_def)
qed

lemma gather_Returned_only: "gather rs = Returned vs \<Longrightarrow> rs = map Returned vs"
proof -
  assume g: "gather rs = Returned vs"
  have none: "List.map_filter raised rs = []" and w: "Waiting \<notin> set rs"
    and vs: "vs = List.map_filter returned rs"
    using g by (auto simp: gather_def split: list.splits if_splits)
  have "rs = map Returned (List.map_filter returned rs)" using none w
  proof (induction rs)
    case Nil
    then show ?case by (simp add: map_filter_simps)
  next
    case (Cons r rs)
    then show ?case by (cases r) (auto simp: map_filter_simps)
  qed
  then show ?thesis using vs by simp
qed

lemma identified_Inr: "identified stub \<longleftrightarrow> (\<exists>t. getitem stub ''gameReportId'' = Inr t)"
  by (cases "getitem stub ''gameReportId''") (simp_all add: identified_def)

lemma returns_Returned:
  "returns task \<longleftrightarrow> (\<exists>v. fst (battlelogRetrieveReport (snd task)) = Returned v)"
  by (cases "fst (battlelogRetrieveReport (snd task))") (simp_all add: returns_def)

lemma gather_Returned_comp: "gather (map (Returned \<circ> f) xs) = Returned (map f xs)"
  using gather_Returned [of "map f xs"] by simp

lemma ids_of_sound:
  "list_all sound batch \<Longrightarrow>
   \<exists>ids. in_order (map (\<lambda>(stub, evs). getitem stub ''gameReportId'') batch) = Inr ids"
  unfolding in_order_Inr
  by (auto simp: list_all_iff sound_def identified_Inr)

lemma answers_of_sound:
  "list_all sound batch \<Longrightarrow>
   map (\<lambda>(stub, evs). fst (battlelogRetrieveReport evs)) batch = map Returned (map answer batch)"
  by (induction batch) (auto simp: sound_def returns_def answer_def split: outcome.splits)

lemma fetch_batch_sound:
  assumes "list_all sound batch"
  shows "fetch_batch batch = (Returned (filter truthy (map answer batch)), length batch)"
proof -
  obtain ids where "in_order (map (\<lambda>(stub, evs). getitem stub ''gameReportId'') batch) = Inr ids"
    using ids_of_sound [OF assms] by blast
  then show ?thesis
    by (simp add: fetch_batch_def answers_of_sound [OF assms] gather_Returned_comp)
qed

lemma fetch_batch_Returned:
  assumes "fst (fetch_batch batch) = Returned reports"
  shows "list_all sound batch"
proof -
  obtain ids where ids: "in_order (map (\<lambda>(stub, evs). getitem stub ''gameReportId'') batch) = Inr ids"
    using assms by (auto simp: fetch_batch_def split: sum.splits)
  then obtain vs where
    "gather (map (\<lambda>(stub, evs). fst (battlelogRetrieveReport evs)) batch) = Returned vs"
    using assms by (auto simp: fetch_batch_def split: outcome.splits)
  then have vs: "map (\<lambda>(stub, evs). fst (battlelogRetrieveReport evs)) batch = map Returned vs"
    by (rule gather_Returned_only)
  have "\<forall>r \<in> set (map (\<lambda>(stub, evs). getitem stub ''gameReportId'') batch). \<exists>v. r = Inr v"
    using ids in_order_Inr by blast
  then have a: "\<forall>task \<in> set batch. identified (fst task)"
    by (auto simp: identified_Inr)
  have b: "\<forall>task \<in> set batch. returns task"
  proof
    fix task assume "task \<in> set batch"
    then have "fst (battlelogRetrieveReport (snd task))
                 \<in> set (map (\<lambda>(stub, evs). fst (battlelogRetrieveReport evs)) batch)"
      by (auto simp: image_iff split: prod.splits intro!: bexI [of _ task])
    then have "fst (battlelogRetrieveReport (snd task)) \<in> set (map Returned vs)"
      by (simp only: vs)
    then show "returns task" by (auto simp: returns_Returned)
  qed
  show ?thesis using a b by (simp add: list_all_iff sound_def)
qed

lemma fetch_batches_sound:
  "list_all sound (concat batches) \<Longrightarrow>
   fetch_batches batches sofar n =
     (Returned (sofar @ filter truthy (map answer (concat batches))), n + length (concat batches))"
proof (induction batches arbitrary: sofar n)
  case Nil
  then show ?case by simp
next
  case (Cons batch batches)
  then show ?case by (simp add: fetch_batch_sound)
qed

lemma fetch_batches_Returned:
  "fst (fetch_batches batches sofar n) = Returned details \<Longrightarrow> list_all sound (concat batches)"
proof (induction batches arbitrary: sofar n)
  case Nil
  then show ?case by simp
next
  case (Cons batch batches)
  obtain r k where f: "fetch_batch batch = (r, k)" by (cases "fetch_batch batch")
  with Cons.prems obtain reports where r: "r = Returned reports"
    by (cases r) auto
  have "list_all sound batch" using fetch_batch_Returned [of batch reports] f r by simp
  moreover have "list_all sound (concat batches)"
    using Cons.IH [of "sofar @ reports" "n + k"] Cons.prems f r by simp
  ultimately show ?case by simp
qed

lemma replicate_five: "replicate 5 x = [x, x, x, x, x]"
  by (simp add: numeral_eq_Suc)

lemma blank_answer:
  "list_all blank evs \<Longrightarrow> length evs = 6 \<Longrightarrow>
   battlelogRetrieveReport (evs @ rest) =
     (Returned (JObj []), 6, concat (replicate 5 [Write ''.'', Sleep 3]) @ [Write ''x''])"
  unfolding battlelogRetrieveReport_def
  using retrieve_all_blank [of evs 0 rest] by (cases "evs = []") auto

lemma retrieve_blank_prefix:
  "list_all blank pre \<Longrightarrow> attempt + length pre < 6 \<Longrightarrow>
   retrieve_from attempt (pre @ later) =
     (case retrieve_from (attempt + length pre) later of
        (r, n, tr) \<Rightarrow> (r, n, concat (replicate (length pre) [Write ''.'', Sleep 3]) @ tr))"
proof (induction pre arbitrary: attempt)
  case Nil
  then show ?case by (simp split: prod.splits)
next
  case (Cons ev pre)
  have "retrieve_from (attempt + 1) (pre @ later) =
     (case retrieve_from (attempt + 1 + length pre) later of
        (r, n, tr) \<Rightarrow> (r, n, concat (replicate (length pre) [Write ''.'', Sleep 3]) @ tr))"
    using Cons.IH [of "attempt + 1"] Cons.prems by simp
  moreover have "\<not> 6 \<le> attempt + 1" using Cons.prems by simp
  ultimately show ?case using Cons.prems(1)
    by (simp add: retrieve_blank del: retrieve_from.simps split: prod.splits)
qed

text \<open>
  Claim C3. After fewer than six responses that are all status 200 with a null or empty
  body the coroutine has slept 3 seconds after each and asks again: it goes on with the
  next response as attempt number \<open>k + 1\<close>, and a report that comes then is returned. A
  record whose first six responses are all of that kind: its coroutine makes six
  attempts, sleeps 3 seconds after each of the first five, and returns the empty dict.
  When the stubs have their \<open>gameReportId\<close> and the other coroutines return, the fetch of
  all batches returns too, and its result is the truthy answers of the records before and
  after that one, in order: the record is left out and nothing else is.
\<close>

theorem blank_record_dropped:
  assumes "list_all sound tasks" and "i < length tasks"
    and "snd (tasks ! i) = evs @ rest" and "list_all blank evs" and "length evs = 6"
  shows "(list_all blank pre \<and> length pre < 6 \<longrightarrow>
            battlelogRetrieveReport (pre @ later) =
              (case retrieve_from (length pre) later of
                 (r, n, tr) \<Rightarrow>
                   (r, n, concat (replicate (length pre) [Write ''.'', Sleep 3]) @ tr)))
       \<and> (list_all blank pre \<and> length pre < 6 \<and> truthy report \<and> raw \<noteq> ''null'' \<longrightarrow>
            battlelogRetrieveReport (pre @ Http 200 report raw # later) =
              (Returned report, length pre + 1,
               concat (replicate (length pre) [Write ''.'', Sleep 3]) @ [Write ''o'']))
       \<and> battlelogRetrieveReport (snd (tasks ! i)) =
           (Returned (JObj []), 6, concat (replicate 5 [Write ''.'', Sleep 3]) @ [Write ''x''])
       \<and> (\<exists>batches. array_split tasks (batch_count (length tasks)) = Inr batches
            \<and> fetch_batches batches [] 0 =
                (Returned (filter truthy (map answer (take i tasks))
                           @ filter truthy (map answer (drop (Suc i) tasks))),
                 length tasks))"
proof -
  have step: "battlelogRetrieveReport (pre @ later) =
      (case retrieve_from (length pre) later of
         (r, n, tr) \<Rightarrow> (r, n, concat (replicate (length pre) [Write ''.'', Sleep 3]) @ tr))"
    if "list_all blank pre" and "length pre < 6" for later
    unfolding battlelogRetrieveReport_def
    using retrieve_blank_prefix [of pre 0 later] that by simp
  have again: "battlelogRetrieveReport (pre @ Http 200 report raw # later) =
      (Returned report, length pre + 1,
       concat (replicate (length pre) [Write ''.'', Sleep 3]) @ [Write ''o''])"
    if "list_all blank pre" and "length pre < 6" and "truthy report" and "raw \<noteq> ''null''"
    using step [OF that(1,2), of "Http 200 report raw # later"] that(3,4) by simp
  have one: "battlelogRetrieveReport (snd (tasks ! i)) =
           (Returned (JObj []), 6, concat (replicate 5 [Write ''.'', Sleep 3]) @ [Write ''x''])"
    using assms(3-5) by (simp add: blank_answer)
  then have falsy: "\<not> truthy (answer (tasks ! i))" by (simp add: answer_def)
  have "0 < length tasks" using assms(2) by (cases tasks) simp_all
  then have n: "0 < batch_count (length tasks)" by (rule batch_count_pos)
  then obtain batches where b: "array_split tasks (batch_count (length tasks)) = Inr batches"
    by (simp add: array_split_def Let_def)
  have c: "concat batches = tasks" using array_split_sections [OF n b] by simp
  have "tasks = take i tasks @ tasks ! i # drop (Suc i) tasks"
    using assms(2) by (simp add: id_take_nth_drop)
  then have "filter truthy (map answer tasks) =
      filter truthy (map answer (take i tasks @ tasks ! i # drop (Suc i) tasks))" by simp
  also have "\<dots> = filter truthy (map answer (take i tasks))
                  @ filter truthy (map answer (drop (Suc i) tasks))"
    using falsy by simp
  finally have "fetch_batches batches [] 0 =
      (Returned (filter truthy (map answer (take i tasks))
                 @ filter truthy (map answer (drop (Suc i) tasks))), length tasks)"
    using fetch_batches_sound [of batches "[]" 0] assms(1) c by simp
  then have all: "\<exists>batches. array_split tasks (batch_count (length tasks)) = Inr batches
            \<and> fetch_batches batches [] 0 =
                (Returned (filter truthy (map answer (take i tasks))
                           @ filter truthy (map answer (drop (Suc i) tasks))),
                 length tasks)"
    using b by blast
  show ?thesis using step again one all by blast
qed

theorem blank_record_dropped_witness:
  "battlelogRetrieveReport
     ([Http 200 JNull ''null'', Http 200 (JObj []) ''{}'']
      @ Http 200 (JObj [(''id'', JNum 2)]) ''b'' # []) =
     (Returned (JObj [(''id'', JNum 2)]), 3,
      [Write ''.'', Sleep 3, Write ''.'', Sleep 3, Write ''o''])
   \<and> battlelogRetrieveReport
       ([Http 200 JNull ''null'', Http 200 (JObj []) ''{}''] @ [ClientOSError]) =
     (Waiting, 4, [Write ''.'', Sleep 3, Write ''.'', Sleep 3, Sleep 10])
   \<and> (\<exists>batches.
     array_split
       [(JObj [(''gameReportId'', JStr ''1'')], [Http 200 (JObj [(''id'', JNum 1)]) ''a'']),
        (JObj [(''gameReportId'', JStr ''2'')],
           [Http 200 JNull ''null'', Http 200 (JObj []) ''{}'', Http 200 (JArr []) ''[]'',
            Http 200 JNull [], Http 200 (JObj [(''id'', JNum 2)]) ''null'',
            Http 200 JNull ''null''] @ [Http 200 (JObj [(''id'', JNum 2)]) ''b'']),
        (JObj [(''gameReportId'', JStr ''3'')], [Http 200 (JObj [(''id'', JNum 3)]) ''c''])]
       (batch_count 3) = Inr batches
     \<and> fetch_batches batches [] 0 =
         (Returned [JObj [(''id'', JNum 1)], JObj [(''id'', JNum 3)]], 3))"
proof -
  have sample: "replicate 2 x = [x, x]" for x :: "effect list"
    by (simp add: numeral_2_eq_2)
  show ?thesis
    using blank_record_dropped
      [where tasks =
         "[(JObj [(''gameReportId'', JStr ''1'')], [Http 200 (JObj [(''id'', JNum 1)]) ''a'']),
           (JObj [(''gameReportId'', JStr ''2'')],
              [Http 200 JNull ''null'', Http 200 (JObj []) ''{}'', Http 200 (JArr []) ''[]'',
               Http 200 JNull [], Http 200 (JObj [(''id'', JNum 2)]) ''null'',
               Http 200 JNull ''null''] @ [Http 200 (JObj [(''id'', JNum 2)]) ''b'']),
           (JObj [(''gameReportId'', JStr ''3'')], [Http 200 (JObj [(''id'', JNum 3)]) ''c''])]"
       and i = 1
       and evs = "[Http 200 JNull ''null'', Http 200 (JObj []) ''{}'', Http 200 (JArr []) ''[]'',
               Http 200 JNull [], Http 200 (JObj [(''id'', JNum 2)]) ''null'',
               Http 200 JNull ''null'']"
       and rest = "[Http 200 (JObj [(''id'', JNum 2)]) ''b'']"
       and pre = "[Http 200 JNull ''null'', Http 200 (JObj []) ''{}'']"
       and later = "[]" and report = "JObj [(''id'', JNum 2)]" and raw = "''b''"]
      blank_record_dropped
      [where tasks =
         "[(JObj [(''gameReportId'', JStr ''1'')], [Http 200 (JObj [(''id'', JNum 1)]) ''a'']),
           (JObj [(''gameReportId'', JStr ''2'')],
              [Http 200 JNull ''null'', Http 200 (JObj []) ''{}'', Http 200 (JArr []) ''[]'',
               Http 200 JNull [], Http 200 (JObj [(''id'', JNum 2)]) ''null'',
               Http 200 JNull ''null''] @ [Http 200 (JObj [(''id'', JNum 2)]) ''b'']),
           (JObj [(''gameReportId'', JStr ''3'')], [Http 200 (JObj [(''id'', JNum 3)]) ''c''])]"
       and i = 1
       and evs = "[Http 200 JNull ''null'', Http 200 (JObj []) ''{}'', Http 200 (JArr []) ''[]'',
               Http 200 JNull [], Http 200 (JObj [(''id'', JNum 2)]) ''null'',
               Http 200 JNull ''null'']"
       and rest = "[Http 200 (JObj [(''id'', JNum 2)]) ''b'']"
       and pre = "[Http 200 JNull ''null'', Http 200 (JObj []) ''{}'']"
       and later = "[ClientOSError]" and report = "JNull" and raw = "[]"]
    by (simp add: sound_def identified_def returns_def answer_def blank_def
          battlelogRetrieveReport_def numeral_3_eq_3 replicate_five sample)
qed

text \<open>
  Claim C6, as the code has it. When the fetch of all batches returns, its result is the
  truthy answers of the tasks in the order of the stubs: every detail is the value the
  coroutine of one enumerated stub returned, and nothing else is in the result. The code
  never compares the \<open>id\<close> inside a detail with the \<open>gameReportId\<close> it asked for.
\<close>

theorem details_are_answers:
  assumes "array_split tasks (batch_count (length tasks)) = Inr batches"
    and "fst (fetch_batches batches [] 0) = Returned details"
  shows "details = filter truthy (map answer tasks)
       \<and> (\<forall>d \<in> set details. \<exists>task \<in> set tasks.
             fst (battlelogRetrieveReport (snd task)) = Returned d)"
proof -
  have n: "0 < batch_count (length tasks)"
    using assms(1) by (cases "batch_count (length tasks)") (simp_all add: array_split_def)
  have c: "concat batches = tasks" using array_split_sections [OF n assms(1)] by simp
  have s: "list_all sound tasks" using fetch_batches_Returned [OF assms(2)] c by simp
  have d: "details = filter truthy (map answer tasks)"
    using fetch_batches_sound [of batches "[]" 0] s c assms(2) by simp
  have "\<exists>task \<in> set tasks. fst (battlelogRetrieveReport (snd task)) = Returned d"
    if "d \<in> set details" for d
  proof -
    from that d obtain task where t: "task \<in> set tasks" and a: "d = answer task" by auto
    have "returns task" using s t by (simp add: list_all_iff sound_def)
    then obtain v where v: "fst (battlelogRetrieveReport (snd task)) = Returned v"
      unfolding returns_Returned by blast
    then have "answer task = v" by (simp add: answer_def)
    then show ?thesis using t a v by blast
  qed
  then show ?thesis using d by blast
qed

theorem details_are_answers_witness:
  "[JObj [(''id'', JStr ''2'')]] =
     filter truthy (map answer
       [(JObj [(''gameReportId'', JStr ''1'')], [Http 200 (JObj [(''id'', JStr ''2'')]) ''body''])])"
  using details_are_answers
    [of "[(JObj [(''gameReportId'', JStr ''1'')], [Http 200 (JObj [(''id'', JStr ''2'')]) ''body''])]"
        "[[(JObj [(''gameReportId'', JStr ''1'')], [Http 200 (JObj [(''id'', JStr ''2'')]) ''body''])]]"
        "[JObj [(''id'', JStr ''2'')]]"]
  by (simp add: array_split_def batch_count_def fetch_batch_def gather_def map_filter_simps
        battlelogRetrieveReport_def)

text \<open>
  One stub with the identifier 1, answered by a report whose \<open>id\<close> is 2: the report is in
  the result.
\<close>

theorem foreign_id_counterexample:
  "array_split
     [(JObj [(''gameReportId'', JStr ''1'')], [Http 200 (JObj [(''id'', JStr ''2'')]) ''body''])]
     (batch_count 1) =
     Inr [[(JObj [(''gameReportId'', JStr ''1'')],
            [Http 200 (JObj [(''id'', JStr ''2'')]) ''body''])]]
   \<and> fetch_batches
     [[(JObj [(''gameReportId'', JStr ''1'')], [Http 200 (JObj [(''id'', JStr ''2'')]) ''body''])]]
     [] 0 = (Returned [JObj [(''id'', JStr ''2'')]], 1)
   \<and> getitem (JObj [(''id'', JStr ''2'')]) ''id'' \<noteq>
       getitem (JObj [(''gameReportId'', JStr ''1'')]) ''gameReportId''"
  by (simp add: array_split_def batch_count_def fetch_batch_def gather_def map_filter_simps
        battlelogRetrieveReport_def)

section \<open>Properties of the whole run\<close>

lemma fetch_extend:
  "battlelogApiFetch rs = Some (r, rs') \<Longrightarrow> battlelogApiFetch (rs @ t) = Some (r, rs' @ t)"
  by (induction rs rule: battlelogApiFetch.induct) (auto split: if_splits)

lemma fetch_forbidden:
  "battlelogApiFetch rs = None \<Longrightarrow>
   battlelogApiFetch (rs @ Response 403 body # t) = Some (Inl (SystemExit 1), t)"
  by (induction rs rule: battlelogApiFetch.induct) (auto split: if_splits)

lemma steady_fetch: "steady battlelogApiFetch"
  unfolding steady_def steady_at_def using fetch_extend fetch_forbidden by blast

lemma steady_pure: "steady (io_pure r)"
  by (simp add: steady_def steady_at_def io_pure_def)

lemma at_bind:
  assumes m: "steady m" and f: "\<And>v s. m rs = Some (Inr v, s) \<Longrightarrow> steady_at (f v) s"
  shows "steady_at (io_bind m f) rs"
  unfolding steady_at_def
proof (intro conjI allI impI)
  fix r rs' t
  assume a: "io_bind m f rs = Some (r, rs')"
  then obtain x s where ms: "m rs = Some (x, s)"
    by (cases "m rs") (auto simp: io_bind_def)
  then have mt: "m (rs @ t) = Some (x, s @ t)" using m by (simp add: steady_def steady_at_def)
  show "io_bind m f (rs @ t) = Some (r, rs' @ t)"
  proof (cases x)
    case (Inl e)
    then show ?thesis using a ms mt by (simp add: io_bind_def)
  next
    case (Inr v)
    then have "f v s = Some (r, rs')" using a ms by (simp add: io_bind_def)
    moreover have "steady_at (f v) s" using f ms Inr by simp
    ultimately have "f v (s @ t) = Some (r, rs' @ t)" by (simp add: steady_at_def)
    then show ?thesis using Inr mt by (simp add: io_bind_def)
  qed
next
  fix body t
  assume a: "io_bind m f rs = None"
  show "io_bind m f (rs @ Response 403 body # t) = Some (Inl (SystemExit 1), t)"
  proof (cases "m rs")
    case None
    then have "m (rs @ Response 403 body # t) = Some (Inl (SystemExit 1), t)"
      using m by (simp add: steady_def steady_at_def)
    then show ?thesis by (simp add: io_bind_def)
  next
    case (Some p)
    obtain x s where p: "p = (x, s)" by (cases p)
    with Some a obtain v where x: "x = Inr v" and fv: "f v s = None"
      by (cases x) (auto simp: io_bind_def)
    have "m (rs @ Response 403 body # t) = Some (Inr v, s @ Response 403 body # t)"
      using m Some p x by (simp add: steady_def steady_at_def)
    moreover have "steady_at (f v) s" using f Some p x by simp
    then have "f v (s @ Response 403 body # t) = Some (Inl (SystemExit 1), t)"
      using fv by (simp add: steady_at_def)
    ultimately show ?thesis by (simp add: io_bind_def)
  qed
qed

lemma steady_bind: "steady m \<Longrightarrow> (\<And>v. steady (f v)) \<Longrightarrow> steady (io_bind m f)"
  unfolding steady_def [of "io_bind m f"] by (intro allI at_bind) (simp_all add: steady_def)

lemma first_page_bind:
  "first_page = io_bind battlelogApiFetch (\<lambda>page. io_pure
     (case and_then (and_then (getitem page ''data'') (\<lambda>d. getitem d ''gameReports'')) slice_all of
        Inl e \<Rightarrow> Inl (if e = KeyError then SystemExit 1 else e)
      | Inr batch \<Rightarrow> Inr batch))"
  by (rule ext) (simp add: first_page_def io_bind_def io_pure_def split: option.splits sum.splits prod.splits)

lemma steady_first_page: "steady first_page"
  unfolding first_page_bind by (intro steady_bind steady_fetch steady_pure)

lemma more_bind:
  "enumerate_more report_list n =
     io_bind (io_pure (and_then (last_item report_list) (\<lambda>newest. getitem newest ''createdAt'')))
       (\<lambda>createdAt. io_bind battlelogApiFetch (\<lambda>reports.
          io_bind (io_pure (and_then (getitem reports ''data'') (\<lambda>d. getitem d ''gameReports'')))
            (\<lambda>gameReports.
               if \<not> truthy gameReports \<and> 5 \<le> n then io_pure (Inr report_list)
               else if \<not> truthy gameReports then enumerate_more report_list (n + 1)
               else io_bind (io_pure (slice_all gameReports))
                      (\<lambda>batch. enumerate_more (report_list @ batch) 0))))"
  by (rule ext, subst enumerate_more.simps)
     (simp add: io_bind_def io_pure_def split: option.splits sum.splits prod.splits)

lemma pure_Some: "io_pure x rs = Some (Inr v, s) \<longleftrightarrow> x = Inr v \<and> s = rs"
  by (auto simp: io_pure_def)

lemma at_pure: "steady_at (io_pure x) rs"
  using steady_pure [of x] by (simp add: steady_def)

lemma at_more: "steady_at (enumerate_more report_list n) rs"
proof (induction report_list n rs rule: enumerate_more.induct)
  case (1 report_list n rs)
  show ?case
  proof (subst more_bind, rule at_bind [OF steady_pure], rule at_bind [OF steady_fetch],
         rule at_bind [OF steady_pure])
    fix createdAt s reports s' gameReports s''
    assume c: "io_pure (and_then (last_item report_list) (\<lambda>newest. getitem newest ''createdAt'')) rs
                 = Some (Inr createdAt, s)"
      and f: "battlelogApiFetch s = Some (Inr reports, s')"
      and g: "io_pure (and_then (getitem reports ''data'') (\<lambda>d. getitem d ''gameReports'')) s'
                 = Some (Inr gameReports, s'')"
    have s: "s = rs" and s'': "s'' = s'" using c g by (simp_all add: pure_Some)
    have c': "and_then (last_item report_list) (\<lambda>newest. getitem newest ''createdAt'') = Inr createdAt"
      and g': "and_then (getitem reports ''data'') (\<lambda>d. getitem d ''gameReports'') = Inr gameReports"
      using c g by (simp_all add: pure_Some)
    have f': "battlelogApiFetch rs = Some (Inr reports, s')" using f s by simp
    show "steady_at
            (if \<not> truthy gameReports \<and> 5 \<le> n then io_pure (Inr report_list)
             else if \<not> truthy gameReports then enumerate_more report_list (n + 1)
             else io_bind (io_pure (slice_all gameReports))
                    (\<lambda>batch. enumerate_more (report_list @ batch) 0)) s''"
    proof (cases "\<not> truthy gameReports \<and> 5 \<le> n")
      case True
      then show ?thesis by (simp add: at_pure)
    next
      case stay: False
      show ?thesis
      proof (cases "truthy gameReports")
        case False
        then show ?thesis using stay "1.IH"(1) [OF c' f' refl refl g' stay] s'' by simp
      next
        case True
        have "steady_at (io_bind (io_pure (slice_all gameReports))
                    (\<lambda>batch. enumerate_more (report_list @ batch) 0)) s'"
        proof (rule at_bind [OF steady_pure])
          fix batch z
          assume "io_pure (slice_all gameReports) s' = Some (Inr batch, z)"
          then have b: "slice_all gameReports = Inr batch" and z: "z = s'"
            by (simp_all add: pure_Some)
          show "steady_at (enumerate_more (report_list @ batch) 0) z"
            using "1.IH"(2) [OF c' f' refl refl g' stay _ b] True z by simp
        qed
        then show ?thesis using True s'' by simp
      qed
    qed
  qed
qed

lemma steady_more: "steady (enumerate_more report_list n)"
  by (simp add: steady_def at_more)

lemma steady_enumerate: "steady enumerate_reports"
  unfolding enumerate_reports_def by (intro steady_bind steady_first_page steady_more)

lemma steady_metadata: "steady (fetch_all_metadata profile_name)"
  unfolding fetch_all_metadata_def
  by (intro steady_bind steady_fetch steady_pure steady_enumerate)

lemma metadata_then_index:
  "fetch_all_metadata profile_name
     (ok (profile profile_id user_id club_id) # ok club # ok weapon # ok vehicle
      # ok detailed # ok assignment # ok award # rs) =
   io_bind enumerate_reports (\<lambda>report_list. io_pure (Inr
     (\<lparr>profile_data = profile profile_id user_id club_id, club_data = club,
        weapon_stats = weapon, vehicle_stats = vehicle, detailed_stats = detailed,
        assignment_stats = assignment, award_stats = award\<rparr>, report_list))) rs"
  by (simp add: fetch_all_metadata_def io_bind_def io_pure_def ok_def profile_def
        persona_field_def club_field_def)

lemma more_no_stub: "enumerate_more [] n rs = Some (Inl IndexError, rs)"
  by (subst enumerate_more.simps) (simp add: last_item_def)

text \<open>
  Claim C9. Whenever the run, having read some replies, is waiting for the reply to one of
  its synchronous requests (the seven metadata fetches, the first page of the report
  list or a later page), and that reply is a 403: the run ends with \<open>sys.exit(1)\<close>, it has
  read nothing after the 403, awaited no per-record task and written no file.
\<close>

theorem forbidden_ends_run:
  "fetch_all_metadata profile_name script = None \<Longrightarrow>
   main profile_name (script @ Response 403 body # rest) net disk_ok =
     \<lparr>ending = Raised (SystemExit 1), unread = rest, awaited = 0, files = []\<rparr>"
proof -
  assume "fetch_all_metadata profile_name script = None"
  then have "fetch_all_metadata profile_name (script @ Response 403 body # rest) =
               Some (Inl (SystemExit 1), rest)"
    using steady_metadata [of profile_name] by (simp add: steady_def steady_at_def)
  then show ?thesis by (simp add: main_def)
qed

theorem forbidden_ends_run_witness:
  "main ''Brisppy''
     ([ok (profile ''1'' ''2'' ''3''), ok JNull, Response 504 None]
      @ Response 403 None # [ok JNull]) (\<lambda>i. []) True =
     \<lparr>ending = Raised (SystemExit 1), unread = [ok JNull], awaited = 0, files = []\<rparr>"
proof (rule forbidden_ends_run)
  show "fetch_all_metadata ''Brisppy''
          [ok (profile ''1'' ''2'' ''3''), ok JNull, Response 504 None] = None"
    by (simp add: fetch_all_metadata_def io_bind_def io_pure_def ok_def profile_def
          persona_field_def club_field_def)
qed

text \<open>
  Claim C2, at a profile without reports. The first page is empty, so the loop starts on
  an empty \<open>report_list\<close> and \<open>report_list[-1]\<close> raises IndexError before any further page
  is asked for: the run ends there, no empty sequence is returned and nothing is fetched
  or written. Line 158 would not take the empty sequence either: zero sections are a
  ValueError of \<open>numpy.array_split\<close>.
\<close>

theorem zero_reports_index_error:
  "main profile_name
     (ok (profile profile_id user_id club_id) # ok club # ok weapon # ok vehicle
      # ok detailed # ok assignment # ok award # page [] # rest) net disk_ok =
     \<lparr>ending = Raised IndexError, unread = rest, awaited = 0, files = []\<rparr>
   \<and> array_split ([] :: (json \<times> event list) list) (batch_count (length ([] :: json list)))
       = Inl ValueError"
  by (simp add: main_def metadata_then_index enumerate_reports_def io_bind_def io_pure_def
        first_page_page more_no_stub array_split_def batch_count_def)

text \<open>
  Claim C8, at a profile with one report. The run reaches the write step and ends well;
  \<open>report_list.json\<close> is written from the name \<open>report_list\<close>, which line 158 has bound to
  the list of batches: the file holds one numpy array with the stub inside, not the stub
  sequence that the enumeration accumulated.
\<close>

theorem report_list_file_holds_batches:
  "main ''Brisppy''
     (ok (profile ''1'' ''2'' ''3'') # ok club # ok weapon # ok vehicle
      # ok detailed # ok assignment # ok award
      # page [JObj [(''gameReportId'', JStr ''77''), (''createdAt'', JNum 5)]]
      # page [] # page [] # page [] # page [] # page [] # page [] # rest)
     (\<lambda>i. [Http 200 (JObj [(''id'', JStr ''77'')]) ''body'']) True =
     \<lparr>ending = Returned (), unread = rest, awaited = 1,
      files =
        [(File ''profile_data.json'', Str (profile ''1'' ''2'' ''3'')),
         (File ''club_data.json'', Str club),
         (File ''weapon_stats.json'', Str weapon),
         (File ''vehicle_stats.json'', Str vehicle),
         (File ''detailed_stats.json'', Str detailed),
         (File ''assignment_stats.json'', Str assignment),
         (File ''award_stats.json'', Str award),
         (File ''report_list.json'',
            Str_arrays [[JObj [(''gameReportId'', JStr ''77''), (''createdAt'', JNum 5)]]]),
         (Report_file (JStr ''77''), Str (JObj [(''id'', JStr ''77'')]))]\<rparr>
   \<and> Str_arrays [[JObj [(''gameReportId'', JStr ''77''), (''createdAt'', JNum 5)]]]
       \<noteq> Str (JArr [JObj [(''gameReportId'', JStr ''77''), (''createdAt'', JNum 5)]])"
  by (simp add: main_def metadata_then_index enumerate_reports_def io_bind_def io_pure_def
        first_page_page more_batch more_empty dated_def array_split_def batch_count_def
        fetch_batch_def gather_def map_filter_simps battlelogRetrieveReport_def
        write_archive_def)

end
